theory Spec2Isabelle
  imports Complex_Main "HOL-Library.Sublist"
begin

section \<open>Python strings\<close>

text \<open>
  A Python \<open>str\<close> is modelled as a \<open>string\<close>; a \<open>char\<close> stands for the code point
  of the same number, so the model covers the code points below 256. \<open>str.isspace\<close>
  holds there for TAB, LF, VT, FF, CR, FS, GS, RS, US, SPACE, NEL and NBSP, and
  \<open>str.lower\<close> moves \<open>A-Z\<close> and the upper-case letters \<open>0xC0-0xDE\<close> (all but the
  multiplication sign \<open>0xD7\<close>) up by 32.
\<close>

definition whitespace :: string where
  "whitespace = [CHR 0x09, CHR 0x0A, CHR 0x0B, CHR 0x0C, CHR 0x0D, CHR 0x1C, CHR 0x1D,
                 CHR 0x1E, CHR 0x1F, CHR 0x20, CHR 0x85, CHR 0xA0]"

definition isspace :: "char \<Rightarrow> bool" where
  "isspace c = (c \<in> set whitespace)"

text \<open>\<open>s.strip()\<close>: drop the whitespace at both ends.\<close>

definition lstrip :: "string \<Rightarrow> string" where
  "lstrip s = dropWhile isspace s"

definition rstrip :: "string \<Rightarrow> string" where
  "rstrip s = rev (dropWhile isspace (rev s))"

definition strip :: "string \<Rightarrow> string" where
  "strip s = rstrip (lstrip s)"

definition lower_char :: "char \<Rightarrow> char" where
  "lower_char c =
     (let n = (of_char c :: nat)
      in if (65 \<le> n \<and> n \<le> 90) \<or> (192 \<le> n \<and> n \<le> 222 \<and> n \<noteq> 215)
         then char_of (n + 32) else c)"

definition lower :: "string \<Rightarrow> string" where
  "lower s = map lower_char s"

text \<open>\<open>s.startswith(p)\<close>, \<open>s.endswith(p)\<close> and \<open>sub in s\<close>.\<close>

definition startswith :: "string \<Rightarrow> string \<Rightarrow> bool" where
  "startswith s p = prefix p s"

definition endswith :: "string \<Rightarrow> string \<Rightarrow> bool" where
  "endswith s p = suffix p s"

definition contains :: "string \<Rightarrow> string \<Rightarrow> bool" where
  "contains s sub = sublist sub s"

section \<open>The distro policy: \<open>is_command_for_distro\<close>\<close>

definition pm_keywords :: "string list" where
  "pm_keywords = [''apt'', ''apt-get'', ''dpkg'', ''pacman'', ''dnf'', ''yum'']"

definition expected_pm :: "string \<rightharpoonup> string list" where
  "expected_pm = map_of
     [(''Ubuntu/Debian-based'', [''apt'', ''apt-get'', ''dpkg'']),
      (''Arch-based'', [''pacman'']),
      (''Fedora/RHEL-based'', [''dnf'', ''yum''])]"

definition is_command_for_distro :: "string \<Rightarrow> string \<Rightarrow> bool" where
  "is_command_for_distro cmd family =
     (let cmd_lower = lower cmd
      in if list_ex (contains cmd_lower) pm_keywords then
           (case expected_pm family of
              Some expected \<Rightarrow> (if list_ex (contains cmd_lower) expected then True else False)
            | None \<Rightarrow> True)
         else True)"

section \<open>The validity heuristic: \<open>is_valid_command\<close>\<close>

definition conversation_starters :: "string list" where
  "conversation_starters = [''it '', ''i'm'', ''hello'', ''hi'', ''sure'', ''ok'', ''yes'']"

definition is_valid_command :: "string \<Rightarrow> bool" where
  "is_valid_command cmd0 =
     (let cmd = strip cmd0
      in if cmd = [] then False
         else if contains cmd [CHR 0x0A] then False
         else let lower = lower cmd
              in if list_ex (startswith lower) conversation_starters then False
                 else if contains lower ''command:'' \<or> contains lower ''output:'' then False
                 else True)"

section \<open>Extracting the candidate: \<open>extract_command\<close>\<close>

text \<open>
  \<open>re.search\<close> returns the leftmost match. For the first pattern, a backtick, one or
  more characters other than a backtick, and a backtick, a match that starts at a given
  backtick has to take the whole run of non-backtick characters after it, so it exists
  exactly when that run is not empty and is followed by a backtick; group 1 is the run.
\<close>

definition tick :: char where "tick = CHR 0x60"

fun search_single :: "string \<Rightarrow> string option" where
  "search_single [] = None"
| "search_single (c # cs) =
     (if c = tick then
        (let body = takeWhile (\<lambda>x. x \<noteq> tick) cs; rest = dropWhile (\<lambda>x. x \<noteq> tick) cs
         in if body \<noteq> [] \<and> rest \<noteq> [] then Some body else search_single cs)
      else search_single cs)"

text \<open>
  The second pattern, three backticks, one or more characters of any kind matched lazily,
  and three backticks: \<open>lazy_body\<close> is the shortest non-empty group that three backticks
  follow, \<open>search_triple\<close> the group of the leftmost match.
\<close>

fun lazy_body :: "string \<Rightarrow> string option" where
  "lazy_body [] = None"
| "lazy_body (c # cs) =
     (if prefix [tick, tick, tick] cs then Some [c] else map_option ((#) c) (lazy_body cs))"

fun search_triple :: "string \<Rightarrow> string option" where
  "search_triple [] = None"
| "search_triple (c # cs) =
     (if prefix [tick, tick, tick] (c # cs) then
        (case lazy_body (drop 2 cs) of Some body \<Rightarrow> Some body | None \<Rightarrow> search_triple cs)
      else search_triple cs)"

definition extract_command :: "string \<Rightarrow> string" where
  "extract_command response_text =
     (case search_single response_text of
        Some g \<Rightarrow> strip g
      | None \<Rightarrow>
         (case search_triple response_text of
            Some g \<Rightarrow> strip g
          | None \<Rightarrow> []))"

section \<open>The terminal and the language model\<close>

text \<open>
  What the program does to the outside is a log of events, in order: a line printed, a
  call of \<open>input\<close> with its prompt, a call of \<open>query_ollama\<close> with its prompt, a
  command handed to the shell. What the outside gives back is read from lists: the lines
  the user types, the values the successive calls of \<open>query_ollama\<close> return (\<open>None\<close>
  for Python's \<open>None\<close>), the outcomes of the successive shell runs.
\<close>

datatype event = Print string | Input string | Query string | Exec string

datatype run_result = Completed int | Raised string

record world =
  events :: "event list"
  stdin :: "string list"
  llm_replies :: "string option list"
  shell_results :: "run_result list"

definition py_print :: "string \<Rightarrow> 'a world_scheme \<Rightarrow> 'a world_scheme" where
  "py_print s w = w\<lparr>events := events w @ [Print s]\<rparr>"

text \<open>\<open>input(prompt)\<close>: the next line typed, or \<open>None\<close> for the \<open>EOFError\<close> at the end of input.\<close>

definition py_input :: "string \<Rightarrow> 'a world_scheme \<Rightarrow> string option \<times> 'a world_scheme" where
  "py_input prompt w =
     (case stdin w of
        [] \<Rightarrow> (None, w\<lparr>events := events w @ [Input prompt]\<rparr>)
      | line # rest \<Rightarrow> (Some line, w\<lparr>events := events w @ [Input prompt], stdin := rest\<rparr>))"

text \<open>
  A call of \<open>query_ollama\<close> from the loop: its return value is the next reply; the outer
  \<open>None\<close> stands for a call that does not return (there is no timeout).
\<close>

definition ask_llm :: "string \<Rightarrow> 'a world_scheme \<Rightarrow> string option option \<times> 'a world_scheme" where
  "ask_llm prompt w =
     (case llm_replies w of
        [] \<Rightarrow> (None, w\<lparr>events := events w @ [Query prompt]\<rparr>)
      | reply # rest \<Rightarrow>
          (Some reply, w\<lparr>events := events w @ [Query prompt], llm_replies := rest\<rparr>))"

section \<open>The request loop of \<open>main\<close>\<close>

definition BASE_PROMPT :: string where
  "BASE_PROMPT =
     ''You are a Unix command line assistant. '' @
     ''Your job is to generate command line commands for the user. '' @
     ''If you have enough information, respond ONLY with the Unix command enclosed in backticks (for example, `mkdir test`) and nothing else. '' @
     ''If you need clarification, ask a single clarifying question ending with a question mark (?).\<newline>''"

definition build_prompt :: "string list \<Rightarrow> string \<Rightarrow> string" where
  "build_prompt conversation_history family =
     foldl (\<lambda>prompt entry. prompt @ entry @ ''\<newline>'')
       (BASE_PROMPT @ ''\<newline>'' @ ''System distribution: '' @ family @ ''\<newline>'')
       conversation_history"

text \<open>
  The state of one request: the world, the three variables of the loop, and where control
  is. \<open>Looping\<close>: at the loop test. \<open>Left\<close>: the loop is over, by \<open>break\<close> or by the
  test. \<open>EOFError\<close>: \<open>input\<close> raised at the end of input, which nothing in \<open>main\<close>
  catches. \<open>Waiting\<close>: the model never answered.
\<close>

datatype status = Looping | Left | EOFError | Waiting

record config = world +
  conversation_history :: "string list"
  final_command :: "string option"
  iteration :: int
  status :: status

definition max_iterations :: int where
  "max_iterations = 5"

definition cancel_words :: "string list" where
  "cancel_words = [''cancel'', ''break'', ''exit'', ''quit'']"

definition clarification_prompt :: string where
  "clarification_prompt = ''Your clarification (or type 'cancel' to abort): ''"

definition expected_name :: "string \<Rightarrow> string" where
  "expected_name family =
     (if family = ''Ubuntu/Debian-based'' then ''apt/dpkg''
      else if family = ''Fedora/RHEL-based'' then ''dnf/yum''
      else ''the distro's package manager'')"

text \<open>The texts that the loop prints, as the source has them.\<close>

definition msg_querying :: string where
  "msg_querying = ''\<newline>Querying LLM for a command suggestion...''"

definition msg_no_response :: string where
  "msg_no_response = ''No response received. Aborting this request.''"

definition msg_mismatch :: string where
  "msg_mismatch = ''LLM returned a command that appears to be a package management command not matching your distro family.''"

definition msg_received :: "string \<Rightarrow> string" where
  "msg_received candidate = ''Received: '' @ candidate"

definition msg_expected :: "string \<Rightarrow> string" where
  "msg_expected family =
     ''Expected a command using '' @ expected_name family @ '' if a package manager is involved.''"

definition msg_asks :: "string \<Rightarrow> string" where
  "msg_asks llm_response = ''LLM asks: '' @ llm_response"

definition msg_aborted :: string where
  "msg_aborted = ''Clarification loop aborted.''"

definition msg_specify :: string where
  "msg_specify = ''No clarification provided. Please specify if this is a package management command or a generic one.''"

definition msg_details :: string where
  "msg_details = ''No clarification provided. Please provide additional details.''"

definition msg_invalid :: string where
  "msg_invalid = ''LLM did not return a valid command. Please try rephrasing your request.''"

text \<open>Lines 196-213: the candidate is valid and the distro policy turns it down.\<close>

definition clarify_mismatch :: "string \<Rightarrow> string \<Rightarrow> string \<Rightarrow> config \<Rightarrow> config" where
  "clarify_mismatch family llm_response candidate c =
     (let c1 = py_print msg_mismatch c;
          c2 = py_print (msg_received candidate) c1;
          c3 = py_print (msg_expected family) c2
      in case py_input clarification_prompt c3 of
           (None, c4) \<Rightarrow> c4\<lparr>status := EOFError\<rparr>
         | (Some line, c4) \<Rightarrow>
             (let clarification = strip line
              in if lower clarification \<in> set cancel_words then
                   (py_print msg_aborted c4)\<lparr>final_command := None, status := Left\<rparr>
                 else if clarification = [] then
                   py_print msg_specify c4
                 else
                   c4\<lparr>conversation_history := conversation_history c4 @
                        [''Assistant (mismatch): '' @ llm_response, ''User: '' @ clarification],
                      iteration := iteration c4 + 1\<rparr>))"

text \<open>Lines 220-232: no valid candidate, and the trimmed response ends with a question mark.\<close>

definition clarify_question :: "string \<Rightarrow> config \<Rightarrow> config" where
  "clarify_question llm_response c =
     (let c1 = py_print (msg_asks llm_response) c
      in case py_input clarification_prompt c1 of
           (None, c2) \<Rightarrow> c2\<lparr>status := EOFError\<rparr>
         | (Some line, c2) \<Rightarrow>
             (let clarification = strip line
              in if lower clarification \<in> set cancel_words then
                   (py_print msg_aborted c2)\<lparr>final_command := None, status := Left\<rparr>
                 else if clarification = [] then
                   py_print msg_details c2
                 else
                   c2\<lparr>conversation_history := conversation_history c2 @
                        [''Assistant: '' @ llm_response, ''User: '' @ clarification],
                      iteration := iteration c2 + 1\<rparr>))"

text \<open>Lines 193-236: what the loop does with a response that is neither \<open>None\<close> nor empty.\<close>

definition handle_response :: "string \<Rightarrow> string \<Rightarrow> config \<Rightarrow> config" where
  "handle_response family llm_response c =
     (let candidate = extract_command llm_response
      in if candidate \<noteq> [] \<and> is_valid_command candidate then
           (if \<not> is_command_for_distro candidate family then
              clarify_mismatch family llm_response candidate c
            else
              c\<lparr>final_command := Some candidate,
                conversation_history := conversation_history c @ [''Assistant: '' @ llm_response],
                status := Left\<rparr>)
         else
           (if endswith (strip llm_response) ''?'' then clarify_question llm_response c
            else (py_print msg_invalid c)
                   \<lparr>final_command := None, status := Left\<rparr>))"

text \<open>Lines 186-236: one pass through the body of the loop.\<close>

definition loop_body :: "string \<Rightarrow> config \<Rightarrow> config" where
  "loop_body family c =
     (let prompt = build_prompt (conversation_history c) family;
          c1 = py_print msg_querying c
      in case ask_llm prompt c1 of
           (None, c2) \<Rightarrow> c2\<lparr>status := Waiting\<rparr>
         | (Some None, c2) \<Rightarrow>
             (py_print msg_no_response c2)\<lparr>status := Left\<rparr>
         | (Some (Some llm_response), c2) \<Rightarrow>
             (if llm_response = [] then
                (py_print msg_no_response c2)\<lparr>status := Left\<rparr>
              else handle_response family llm_response c2))"

text \<open>Line 185 and the body: the loop test, then one pass.\<close>

definition step :: "string \<Rightarrow> config \<Rightarrow> config" where
  "step family c =
     (if status c = Looping then
        (if iteration c < max_iterations then loop_body family c else c\<lparr>status := Left\<rparr>)
      else c)"

text \<open>Lines 179-183: the state in which a request enters the loop.\<close>

definition start :: "string \<Rightarrow> string list \<Rightarrow> string option list \<Rightarrow> config" where
  "start user_instruction typed replies =
     \<lparr>events = [], stdin = typed, llm_replies = replies, shell_results = [],
      conversation_history = [''User: '' @ user_instruction],
      final_command = None, iteration = 0, status = Looping\<rparr>"

text \<open>Lines 185-236: the loop, run until control leaves it.\<close>

function request_loop :: "string \<Rightarrow> config \<Rightarrow> config" where
  "request_loop family c =
     (if status c = Looping then request_loop family (step family c) else c)"
  by pat_completeness auto
termination
proof (relation "measure (\<lambda>(family, c). 2 * length (llm_replies c) + (if status c = Looping then 1 else 0))")
  show "wf (measure (\<lambda>(family, c). 2 * length (llm_replies c) + (if status c = Looping then 1 else 0)))"
    by simp
next
  fix family :: string and c :: config
  assume looping: "status c = Looping"
  have mismatch: "llm_replies (clarify_mismatch f r cand d) = llm_replies d" for f r cand d
    by (simp add: clarify_mismatch_def py_input_def py_print_def Let_def split: list.split)
  have question: "llm_replies (clarify_question r d) = llm_replies d" for r d
    by (simp add: clarify_question_def py_input_def py_print_def Let_def split: list.split)
  have response: "llm_replies (handle_response f r d) = llm_replies d" for f r d
    by (simp add: handle_response_def mismatch question py_print_def Let_def)
  have "length (llm_replies (step family c)) < length (llm_replies c)
      \<or> (llm_replies (step family c) = llm_replies c \<and> status (step family c) \<noteq> Looping)"
  proof (cases "llm_replies c")
    case Nil
    then show ?thesis
      using looping by (simp add: step_def loop_body_def ask_llm_def py_print_def Let_def)
  next
    case (Cons reply rest)
    then show ?thesis
      using looping
      by (simp add: step_def loop_body_def ask_llm_def py_print_def response Let_def split: option.split)
  qed
  then show "((family, step family c), (family, c))
      \<in> measure (\<lambda>(family, c). 2 * length (llm_replies c) + (if status c = Looping then 1 else 0))"
    using looping by auto
qed

declare request_loop.simps [simp del]

section \<open>The invariant of the request loop\<close>

text \<open>
  What holds of every state of a request: the counter is at most 5, no final command is
  set while control is in the loop, and at 5 the loop is at its test or over, with no
  final command.
\<close>

definition loop_inv :: "config \<Rightarrow> bool" where
  "loop_inv c = (iteration c \<le> 5 \<and> (status c = Looping \<longrightarrow> final_command c = None)
     \<and> (iteration c = 5 \<longrightarrow> final_command c = None \<and> (status c = Looping \<or> status c = Left)))"

section \<open>Running the final command: \<open>execute_command\<close> and lines 251-282 of \<open>main\<close>\<close>

text \<open>
  \<open>subprocess.run(command, shell=True)\<close>: the command goes to the shell, and the next
  outcome is read: \<open>Completed rc\<close> when the shell ran and ended with return code \<open>rc\<close>,
  \<open>Raised e\<close> when the call raised an \<open>Exception\<close> whose \<open>str\<close> is \<open>e\<close>. \<open>None\<close>
  stands for a run that never ends (there is no timeout). Signals that are not an
  \<open>Exception\<close>, such as \<open>KeyboardInterrupt\<close>, are outside the model.
\<close>

definition subprocess_run :: "string \<Rightarrow> 'a world_scheme \<Rightarrow> run_result option \<times> 'a world_scheme" where
  "subprocess_run command w =
     (case shell_results w of
        [] \<Rightarrow> (None, w\<lparr>events := events w @ [Exec command]\<rparr>)
      | result # rest \<Rightarrow>
          (Some result, w\<lparr>events := events w @ [Exec command], shell_results := rest\<rparr>))"

text \<open>
  \<open>execute_command\<close> returns a triple: the return code, \<open>None\<close>, and \<open>None\<close> or the text
  of the exception.
\<close>

definition execute_command ::
  "string \<Rightarrow> 'a world_scheme \<Rightarrow> (int \<times> string option \<times> string option) option \<times> 'a world_scheme" where
  "execute_command command w =
     (case subprocess_run command w of
        (None, w') \<Rightarrow> (None, w')
      | (Some (Completed returncode), w') \<Rightarrow> (Some (returncode, None, None), w')
      | (Some (Raised e), w') \<Rightarrow> (Some (- 1, None, Some e), w'))"

text \<open>\<open>str\<close> of an integer, for the return codes in the messages.\<close>

fun digits :: "nat \<Rightarrow> string" where
  "digits n = (if n < 10 then [char_of (48 + n)] else digits (n div 10) @ [char_of (48 + n mod 10)])"

definition str_int :: "int \<Rightarrow> string" where
  "str_int i = (if i < 0 then ''-'' @ digits (nat (- i)) else digits (nat i))"

definition confirm_words :: "string list" where
  "confirm_words = [''y'', ''yes'', '''']"

text \<open>\<open>input(prompt).strip().lower() in ("y", "yes", "")\<close>; \<open>None\<close> for the \<open>EOFError\<close>.\<close>

definition ask_yes_no :: "string \<Rightarrow> 'a world_scheme \<Rightarrow> bool option \<times> 'a world_scheme" where
  "ask_yes_no prompt w =
     (case py_input prompt w of
        (None, w') \<Rightarrow> (None, w')
      | (Some line, w') \<Rightarrow> (Some (lower (strip line) \<in> set confirm_words), w'))"

definition prompt_create_group :: string where
  "prompt_create_group = ''It appears the docker group does not exist. Would you like to create it? (Y/n): ''"

definition prompt_sudo :: string where
  "prompt_sudo = ''Command error occurred. Try running with sudo? (Y/n): ''"

definition msg_group_created :: string where
  "msg_group_created = ''Docker group created successfully. Re-running the original command.''"

definition msg_after_group :: "int \<Rightarrow> string" where
  "msg_after_group retcode =
     ''Command exited with return code '' @ str_int retcode @ '' after creating docker group.''"

definition msg_success_after_group :: string where
  "msg_success_after_group = ''Command executed successfully after creating docker group.''"

definition msg_group_failed :: string where
  "msg_group_failed = ''Failed to create docker group.''"

definition msg_group_aborted :: string where
  "msg_group_aborted = ''Command aborted due to missing docker group.''"

definition msg_exit_code :: "int \<Rightarrow> string" where
  "msg_exit_code retcode = ''Command exited with return code '' @ str_int retcode @ ''.''"

definition msg_success_sudo :: string where
  "msg_success_sudo = ''Command executed successfully with sudo.''"

definition msg_success :: string where
  "msg_success = ''Command executed successfully.''"

text \<open>
  How lines 251-282 end: \<open>Done\<close>, at the end of the loop body; \<open>Eof\<close>, by the
  \<open>EOFError\<close> of \<open>input\<close>; \<open>Hung\<close>, in a run that never ends.
\<close>

datatype ending = Done | Eof | Hung

text \<open>
  Lines 256-265: the user has agreed to create the docker group. (\<open>final_cmd\<close> is the
  variable \<open>final_command\<close> of \<open>main\<close>.)
\<close>

definition create_group_and_rerun :: "string \<Rightarrow> 'a world_scheme \<Rightarrow> ending \<times> 'a world_scheme" where
  "create_group_and_rerun final_cmd w =
     (case execute_command ''sudo groupadd docker'' w of
        (None, w1) \<Rightarrow> (Hung, w1)
      | (Some (retcode2, _, _), w1) \<Rightarrow>
          if retcode2 = 0 then
            (case execute_command final_cmd (py_print msg_group_created w1) of
               (None, w2) \<Rightarrow> (Hung, w2)
             | (Some (retcode, _, _), w2) \<Rightarrow>
                 if retcode \<noteq> 0 then (Done, py_print (msg_after_group retcode) w2)
                 else (Done, py_print msg_success_after_group w2))
          else (Done, py_print msg_group_failed w1))"

text \<open>Lines 271-280: the answer to the sudo question is in.\<close>

definition sudo_retry :: "string \<Rightarrow> int \<Rightarrow> bool \<Rightarrow> 'a world_scheme \<Rightarrow> ending \<times> 'a world_scheme" where
  "sudo_retry final_cmd retcode sudo_confirm w =
     (if sudo_confirm then
        (let sudo_cmd =
               (if \<not> startswith (strip final_cmd) ''sudo'' then ''sudo '' @ final_cmd
                else final_cmd)
         in case execute_command sudo_cmd w of
              (None, w1) \<Rightarrow> (Hung, w1)
            | (Some (retcode', _, _), w1) \<Rightarrow>
                if retcode' \<noteq> 0 then (Done, py_print (msg_exit_code retcode') w1)
                else (Done, py_print msg_success_sudo w1))
      else (Done, py_print (msg_exit_code retcode) w))"

text \<open>Lines 251-282: the final command is run, and a failure is handled.\<close>

definition execute_and_recover :: "string \<Rightarrow> 'a world_scheme \<Rightarrow> ending \<times> 'a world_scheme" where
  "execute_and_recover final_cmd w =
     (case execute_command final_cmd w of
        (None, w1) \<Rightarrow> (Hung, w1)
      | (Some (retcode, _, _), w1) \<Rightarrow>
          if retcode \<noteq> 0 \<and> contains (lower final_cmd) ''usermod''
             \<and> contains (lower final_cmd) ''docker'' then
            (case ask_yes_no prompt_create_group w1 of
               (None, w2) \<Rightarrow> (Eof, w2)
             | (Some create_group, w2) \<Rightarrow>
                 if create_group then create_group_and_rerun final_cmd w2
                 else (Done, py_print msg_group_aborted w2))
          else if retcode \<noteq> 0 then
            (case ask_yes_no prompt_sudo w1 of
               (None, w2) \<Rightarrow> (Eof, w2)
             | (Some sudo_confirm, w2) \<Rightarrow> sudo_retry final_cmd retcode sudo_confirm w2)
          else (Done, py_print msg_success w1))"

section \<open>Reading the stream: \<open>query_ollama\<close>\<close>









text \<open>
  \<open>query_ollama\<close>, lines 99-116. The request fails (\<open>requests.post\<close> or
  \<open>raise_for_status\<close> raises): \<open>Failed\<close>. Or the response delivers its lines and ends:
  \<open>Streamed\<close>. Or it delivers some lines and then \<open>iter_lines\<close> raises: \<open>Broken\<close>; the
  loop never gets to that exception when it has stopped at a \<open>done\<close> flag before. Every
  exception that leaves the loop lands in the outer handler, which returns \<open>None\<close>.
\<close>

datatype http_response = Failed | Streamed "string list" | Broken "string list"


subsection \<open>What the specification says of the stream\<close>











section \<open>Facts about the string operations\<close>

lemma contains_char: "contains s [c] = (c \<in> set s)"
proof (induction s)
  case Nil
  show ?case by (simp add: contains_def)
next
  case (Cons a s)
  then show ?case by (auto simp: contains_def sublist_Cons_right)
qed

section \<open>Facts about \<open>extract_command\<close>\<close>

lemma search_single_first:
  assumes "r = pre @ [tick] @ body @ [tick] @ post" "body \<noteq> []" "tick \<notin> set body"
    and "\<And>pre' body' post'. r = pre' @ [tick] @ body' @ [tick] @ post' \<Longrightarrow> body' \<noteq> [] \<Longrightarrow> tick \<notin> set body' \<Longrightarrow> length pre \<le> length pre'"
  shows "search_single r = Some body"
  using assms
proof (induction pre arbitrary: r)
  case Nil
  have "takeWhile (\<lambda>x. x \<noteq> tick) (body @ tick # post) = body"
    using Nil.prems(3) by (auto simp: takeWhile_tail)
  moreover have "dropWhile (\<lambda>x. x \<noteq> tick) (body @ tick # post) = tick # post"
    using Nil.prems(3) by (auto simp: dropWhile_append3)
  ultimately show ?case using Nil.prems(1,2) by simp
next
  case (Cons c pre)
  let ?r' = "pre @ [tick] @ body @ [tick] @ post"
  have r: "r = c # ?r'" using Cons.prems(1) by simp
  have min': "length pre \<le> length pre'"
    if "?r' = pre' @ [tick] @ body' @ [tick] @ post'" "body' \<noteq> []" "tick \<notin> set body'"
    for pre' body' post'
  proof -
    have "r = (c # pre') @ [tick] @ body' @ [tick] @ post'" using r that(1) by simp
    from Cons.prems(4) [OF this that(2,3)] show ?thesis by simp
  qed
  have ih: "search_single ?r' = Some body"
    by (rule Cons.IH [OF refl Cons.prems(2,3)]) (rule min')
  show ?case
  proof (cases "c = tick")
    case False
    then show ?thesis using r ih by simp
  next
    case True
    let ?b = "takeWhile (\<lambda>x. x \<noteq> tick) ?r'"
    let ?d = "dropWhile (\<lambda>x. x \<noteq> tick) ?r'"
    have "\<not> (?b \<noteq> [] \<and> ?d \<noteq> [])"
    proof
      assume a: "?b \<noteq> [] \<and> ?d \<noteq> []"
      then have "hd ?d = tick" using hd_dropWhile [of "\<lambda>x. x \<noteq> tick" ?r'] by simp
      then have d: "?d = tick # tl ?d" using a by (cases ?d) auto
      have "?r' = ?b @ ?d" by simp
      then have "r = [] @ [tick] @ ?b @ [tick] @ tl ?d" using r True d by simp
      moreover have "tick \<notin> set ?b" by (auto dest: set_takeWhileD)
      ultimately have "length (c # pre) \<le> length ([]::string)"
        using a by (intro Cons.prems(4)) auto
      then show False by simp
    qed
    then show ?thesis using r ih True by (simp add: Let_def)
  qed
qed


lemma search_single_skip: "tick \<notin> set p \<Longrightarrow> search_single (p @ r) = search_single r"
  by (induction p) auto

lemma search_single_block:
  assumes "body \<noteq> []" "tick \<notin> set body"
  shows "search_single ([tick, tick, tick] @ body @ [tick, tick, tick] @ q) = Some body"
proof -
  have t: "takeWhile (\<lambda>x. x \<noteq> tick) (body @ tick # tick # tick # q) = body"
    using assms(2) by (auto simp: takeWhile_tail)
  have d: "dropWhile (\<lambda>x. x \<noteq> tick) (body @ tick # tick # tick # q) = tick # tick # tick # q"
    using assms(2) by (auto simp: dropWhile_append3)
  show ?thesis using assms(1) t d by simp
qed

lemma rstrip_prefix: "\<exists>t. s = rstrip s @ t"
proof -
  have "rstrip s @ rev (takeWhile isspace (rev s))
      = rev (takeWhile isspace (rev s) @ dropWhile isspace (rev s))"
    unfolding rstrip_def by (simp only: rev_append)
  also have "\<dots> = s" by simp
  finally show ?thesis by metis
qed

lemma strip_no_outer_space:
  "strip s = [] \<or> (\<not> isspace (hd (strip s)) \<and> \<not> isspace (last (strip s)))"
proof (cases "strip s = []")
  case True
  then show ?thesis by simp
next
  case False
  let ?t = "lstrip s"
  have ne: "dropWhile isspace (rev ?t) \<noteq> []"
    using False by (simp add: strip_def rstrip_def)
  have "last (strip s) = hd (dropWhile isspace (rev ?t))"
    using ne by (simp add: strip_def rstrip_def last_rev)
  then have l: "\<not> isspace (last (strip s))"
    using hd_dropWhile [OF ne] by simp
  obtain u where u: "?t = strip s @ u"
    using rstrip_prefix [of ?t] by (auto simp: strip_def)
  then have "hd ?t = hd (strip s)" using False by (metis hd_append2)
  moreover have "?t \<noteq> []" using u False by auto
  then have "\<not> isspace (hd ?t)"
    unfolding lstrip_def by (rule hd_dropWhile)
  ultimately show ?thesis using l by simp
qed

lemma strip_fixed:
  assumes "s = [] \<or> (\<not> isspace (hd s) \<and> \<not> isspace (last s))"
  shows "strip s = s"
proof (cases "s = []")
  case True
  then show ?thesis by (simp add: strip_def lstrip_def rstrip_def)
next
  case False
  then have h: "\<not> isspace (hd s)" and l: "\<not> isspace (last s)"
    using assms by simp_all
  have "lstrip s = s"
    using False h by (cases s) (simp_all add: lstrip_def)
  moreover have "dropWhile isspace (rev s) = rev s"
    using False l by (cases "rev s") (simp_all add: last_rev [symmetric] del: last_rev)
  ultimately show ?thesis by (simp add: strip_def rstrip_def)
qed

lemma extract_command_stripped: "strip (extract_command r) = extract_command r"
proof -
  have "extract_command r = []
      \<or> (\<not> isspace (hd (extract_command r)) \<and> \<not> isspace (last (extract_command r)))"
    using strip_no_outer_space
    by (simp add: extract_command_def split: option.split)
  then show ?thesis by (rule strip_fixed)
qed

section \<open>Facts about the request loop\<close>

lemma py_print_fields:
  "events (py_print s w) = events w @ [Print s]"
  "stdin (py_print s w) = stdin w"
  "llm_replies (py_print s w) = llm_replies w"
  "shell_results (py_print s w) = shell_results w"
  "conversation_history (py_print s c) = conversation_history c"
  "final_command (py_print s c) = final_command c"
  "iteration (py_print s c) = iteration c"
  "status (py_print s c) = status c"
  by (simp_all add: py_print_def)

lemma clarify_mismatch_summary:
  "llm_replies (clarify_mismatch f r cand d) = llm_replies d
   \<and> final_command (clarify_mismatch f r cand d) \<in> {None, final_command d}
   \<and> (status (clarify_mismatch f r cand d) = Looping \<longrightarrow>
        status d = Looping \<and> final_command (clarify_mismatch f r cand d) = final_command d)
   \<and> (iteration (clarify_mismatch f r cand d) = iteration d
        \<or> iteration (clarify_mismatch f r cand d) = iteration d + 1
          \<and> status (clarify_mismatch f r cand d) = status d
          \<and> (\<exists>line rest. stdin d = line # rest \<and> strip line \<noteq> []
                \<and> stdin (clarify_mismatch f r cand d) = rest
                \<and> conversation_history (clarify_mismatch f r cand d) =
                    conversation_history d @
                      [''Assistant (mismatch): '' @ r, ''User: '' @ strip line]))"
  by (simp add: clarify_mismatch_def py_input_def py_print_fields Let_def split: list.split)

lemma clarify_question_summary:
  "llm_replies (clarify_question r d) = llm_replies d
   \<and> final_command (clarify_question r d) \<in> {None, final_command d}
   \<and> (status (clarify_question r d) = Looping \<longrightarrow>
        status d = Looping \<and> final_command (clarify_question r d) = final_command d)
   \<and> (iteration (clarify_question r d) = iteration d
        \<or> iteration (clarify_question r d) = iteration d + 1
          \<and> status (clarify_question r d) = status d
          \<and> (\<exists>line rest. stdin d = line # rest \<and> strip line \<noteq> []
                \<and> stdin (clarify_question r d) = rest
                \<and> conversation_history (clarify_question r d) =
                    conversation_history d @ [''Assistant: '' @ r, ''User: '' @ strip line]))"
  by (simp add: clarify_question_def py_input_def py_print_fields Let_def split: list.split)


lemma handle_response_summary:
  "llm_replies (handle_response f r d) = llm_replies d
   \<and> (\<forall>cand. final_command (handle_response f r d) = Some cand \<longrightarrow>
         final_command d = Some cand
         \<or> cand = extract_command r \<and> is_valid_command cand \<and> is_command_for_distro cand f
           \<and> status (handle_response f r d) = Left)
   \<and> (status (handle_response f r d) = Looping \<longrightarrow>
        status d = Looping \<and> final_command (handle_response f r d) = final_command d)
   \<and> (iteration (handle_response f r d) = iteration d
        \<or> iteration (handle_response f r d) = iteration d + 1
          \<and> status (handle_response f r d) = status d
          \<and> (\<exists>line rest. stdin d = line # rest \<and> strip line \<noteq> []
                \<and> stdin (handle_response f r d) = rest
                \<and> (\<exists>label. conversation_history (handle_response f r d) =
                      conversation_history d @ [label @ r, ''User: '' @ strip line])))"
proof -
  let ?cand = "extract_command r"
  consider
    (accept) "?cand \<noteq> [] \<and> is_valid_command ?cand" "is_command_for_distro ?cand f"
    | (mismatch) "?cand \<noteq> [] \<and> is_valid_command ?cand" "\<not> is_command_for_distro ?cand f"
    | (question) "\<not> (?cand \<noteq> [] \<and> is_valid_command ?cand)" "endswith (strip r) ''?''"
    | (unusable) "\<not> (?cand \<noteq> [] \<and> is_valid_command ?cand)" "\<not> endswith (strip r) ''?''"
    by blast
  then show ?thesis
  proof cases
    case accept
    then have "handle_response f r d =
        d\<lparr>final_command := Some ?cand,
          conversation_history := conversation_history d @ [''Assistant: '' @ r],
          status := Left\<rparr>"
      by (auto simp: handle_response_def Let_def)
    then show ?thesis using accept by simp
  next
    case mismatch
    then have "handle_response f r d = clarify_mismatch f r ?cand d"
      by (auto simp: handle_response_def Let_def)
    then show ?thesis
      using clarify_mismatch_summary [of f r ?cand d] by auto
  next
    case question
    then have "handle_response f r d = clarify_question r d"
      by (auto simp: handle_response_def Let_def)
    then show ?thesis
      using clarify_question_summary [of r d] by auto
  next
    case unusable
    then have "handle_response f r d =
        (py_print msg_invalid d)
          \<lparr>final_command := None, status := Left\<rparr>"
      by (auto simp: handle_response_def Let_def)
    then show ?thesis by (simp add: py_print_fields)
  qed
qed

lemma step_summary:
  "set (llm_replies (step f c)) \<subseteq> set (llm_replies c)
   \<and> (\<forall>cand. final_command (step f c) = Some cand \<longrightarrow>
         final_command c = Some cand
         \<or> (\<exists>r rest. llm_replies c = Some r # rest \<and> cand = extract_command r
               \<and> is_valid_command cand \<and> is_command_for_distro cand f
               \<and> status (step f c) = Left))
   \<and> (status (step f c) = Looping \<longrightarrow>
        status c = Looping \<and> final_command (step f c) = final_command c)
   \<and> (iteration (step f c) = iteration c
        \<or> iteration (step f c) = iteration c + 1
          \<and> iteration c < max_iterations \<and> status c = Looping \<and> status (step f c) = Looping
          \<and> (\<exists>line rest. stdin c = line # rest \<and> strip line \<noteq> []
                \<and> stdin (step f c) = rest
                \<and> (\<exists>label r. conversation_history (step f c) =
                      conversation_history c @ [label @ r, ''User: '' @ strip line])))"
proof -
  let ?q = "[Print msg_querying,
             Query (build_prompt (conversation_history c) f)]"
  consider
    (idle) "status c \<noteq> Looping"
    | (exhausted) "status c = Looping" "\<not> iteration c < max_iterations"
    | (waiting) "status c = Looping" "iteration c < max_iterations" "llm_replies c = []"
    | (none) rest where "status c = Looping" "iteration c < max_iterations"
        "llm_replies c = None # rest"
    | (empty) rest where "status c = Looping" "iteration c < max_iterations"
        "llm_replies c = Some [] # rest"
    | (response) r rest where "status c = Looping" "iteration c < max_iterations"
        "llm_replies c = Some r # rest" "r \<noteq> []"
    by (cases "llm_replies c"; cases "hd (llm_replies c)"; cases "the (hd (llm_replies c))") auto
  then show ?thesis
  proof cases
    case idle
    then show ?thesis by (simp add: step_def)
  next
    case exhausted
    then show ?thesis by (simp add: step_def)
  next
    case waiting
    then show ?thesis
      by (auto simp: step_def loop_body_def ask_llm_def py_print_def Let_def)
  next
    case none
    then show ?thesis
      by (auto simp: step_def loop_body_def ask_llm_def py_print_def Let_def)
  next
    case empty
    then show ?thesis
      by (auto simp: step_def loop_body_def ask_llm_def py_print_def Let_def)
  next
    case response
    let ?d = "c\<lparr>events := events c @ ?q, llm_replies := rest\<rparr>"
    have "step f c = handle_response f r ?d"
      using response by (simp add: step_def loop_body_def ask_llm_def py_print_def Let_def)
    then show ?thesis
      using handle_response_summary [of f r ?d] response(1,2,3) by auto
  qed
qed





lemma loop_inv_step:
  assumes "loop_inv c"
  shows "loop_inv (step f c)"
proof -
  consider (idle) "status c \<noteq> Looping"
    | (exhausted) "status c = Looping" "\<not> iteration c < max_iterations"
    | (pass) "status c = Looping" "iteration c < max_iterations"
    by blast
  then show ?thesis
  proof cases
    case idle
    then have "step f c = c" by (simp add: step_def)
    then show ?thesis using assms by simp
  next
    case exhausted
    then have "step f c = c\<lparr>status := Left\<rparr>" by (simp add: step_def)
    then show ?thesis using assms exhausted by (simp add: loop_inv_def)
  next
    case pass
    have none: "final_command c = None"
      using assms pass(1) by (simp add: loop_inv_def)
    have less: "iteration c < 5"
      using pass(2) by (simp add: max_iterations_def)
    have keep: "status (step f c) = Looping \<longrightarrow> final_command (step f c) = None"
      using step_summary [of f c] none by simp
    have "iteration (step f c) = iteration c
        \<or> (iteration (step f c) = iteration c + 1 \<and> status (step f c) = Looping)"
      using step_summary [of f c] by blast
    then show ?thesis
      using keep less unfolding loop_inv_def by auto
  qed
qed

lemma loop_inv_funpow: "loop_inv c \<Longrightarrow> loop_inv ((step f ^^ n) c)"
  by (induction n) (simp_all add: loop_inv_step)

lemma loop_inv_start: "loop_inv (start instr typed replies)"
  by (simp add: loop_inv_def start_def)

lemma request_loop_exhausted:
  assumes "iteration c = 5" "status c = Looping \<or> status c = Left"
  shows "request_loop f c = c\<lparr>status := Left\<rparr>"
proof -
  have "step f c = c\<lparr>status := Left\<rparr>" if "status c = Looping"
    using that assms(1) by (simp add: step_def max_iterations_def)
  moreover have "request_loop f (c\<lparr>status := Left\<rparr>) = c\<lparr>status := Left\<rparr>"
    by (subst request_loop.simps) simp
  moreover have "c\<lparr>status := Left\<rparr> = c" if "status c = Left"
    using that by simp
  ultimately show ?thesis
    using assms(2) by (subst request_loop.simps) auto
qed

lemma funpow_iteration_mono: "iteration c \<le> iteration ((step f ^^ n) c)"
proof (induction n)
  case 0
  show ?case by simp
next
  case (Suc n)
  have "iteration ((step f ^^ n) c) \<le> iteration (step f ((step f ^^ n) c))"
    using step_summary [of f "(step f ^^ n) c"] by auto
  then show ?case using Suc by simp
qed



lemma is_valid_command_nonempty: "is_valid_command s \<Longrightarrow> s \<noteq> []"
  by (auto simp: is_valid_command_def strip_def lstrip_def rstrip_def)

lemma lower_empty_not_cancel: "lower [] \<notin> set cancel_words"
  by (simp add: lower_def cancel_words_def)

lemma clarify_mismatch_flat:
  fixes f r cand d
  defines "shown \<equiv> events d @
     [Print msg_mismatch,
      Print (msg_received cand),
      Print (msg_expected f),
      Input clarification_prompt]"
  shows "clarify_mismatch f r cand d =
     (case stdin d of
        [] \<Rightarrow> d\<lparr>events := shown, status := EOFError\<rparr>
      | line # later \<Rightarrow>
          if lower (strip line) \<in> set cancel_words then
            d\<lparr>events := shown @ [Print msg_aborted], stdin := later,
              final_command := None, status := Left\<rparr>
          else if strip line = [] then
            d\<lparr>events := shown @ [Print msg_specify],
              stdin := later\<rparr>
          else
            d\<lparr>events := shown, stdin := later,
              conversation_history := conversation_history d @
                [''Assistant (mismatch): '' @ r, ''User: '' @ strip line],
              iteration := iteration d + 1\<rparr>)"
  unfolding shown_def
  by (simp add: clarify_mismatch_def py_input_def py_print_def Let_def split: list.split)

lemma clarify_question_flat:
  fixes r d
  defines "shown \<equiv> events d @ [Print (msg_asks r), Input clarification_prompt]"
  shows "clarify_question r d =
     (case stdin d of
        [] \<Rightarrow> d\<lparr>events := shown, status := EOFError\<rparr>
      | line # later \<Rightarrow>
          if lower (strip line) \<in> set cancel_words then
            d\<lparr>events := shown @ [Print msg_aborted], stdin := later,
              final_command := None, status := Left\<rparr>
          else if strip line = [] then
            d\<lparr>events := shown @ [Print msg_details],
              stdin := later\<rparr>
          else
            d\<lparr>events := shown, stdin := later,
              conversation_history := conversation_history d @
                [''Assistant: '' @ r, ''User: '' @ strip line],
              iteration := iteration d + 1\<rparr>)"
  unfolding shown_def
  by (simp add: clarify_question_def py_input_def py_print_def Let_def split: list.split)

lemma step_response:
  assumes "status c = Looping" "iteration c < max_iterations"
    "llm_replies c = Some r # rest" "r \<noteq> []"
  shows "step f c = handle_response f r
     (c\<lparr>events := events c @ [Print msg_querying,
                             Query (build_prompt (conversation_history c) f)],
        llm_replies := rest\<rparr>)"
  using assms by (simp add: step_def loop_body_def ask_llm_def py_print_def Let_def)

lemma msg_asks_distinct:
  "msg_asks r \<noteq> msg_querying" "msg_asks r \<noteq> msg_mismatch" "msg_asks r \<noteq> msg_received cand"
  "msg_asks r \<noteq> msg_expected f" "msg_asks r \<noteq> msg_aborted" "msg_asks r \<noteq> msg_specify"
  by (simp_all add: msg_asks_def msg_querying_def msg_mismatch_def msg_received_def
      msg_expected_def msg_aborted_def msg_specify_def)

lemma valid_candidate_response: "is_valid_command (extract_command r) \<Longrightarrow> r \<noteq> []"
  using is_valid_command_nonempty [of "extract_command r"]
  by (auto simp: extract_command_def)

lemma question_response: "endswith (strip r) ''?'' \<Longrightarrow> r \<noteq> []"
  by (auto simp: endswith_def strip_def lstrip_def rstrip_def)

lemma clarify_mismatch_prompts:
  "\<exists>tail. events (clarify_mismatch f r cand d) =
     events d @ [Print msg_mismatch, Print (msg_received cand), Print (msg_expected f),
                 Input clarification_prompt] @ tail"
  by (simp add: clarify_mismatch_flat split: list.split)

lemma clarify_question_prompts:
  "\<exists>tail. events (clarify_question r d) =
     events d @ [Print (msg_asks r), Input clarification_prompt] @ tail"
  by (simp add: clarify_question_flat split: list.split)

lemma handle_response_prompts:
  "\<exists>after. events (handle_response f r d) = events d @ after
     \<and> ((\<exists>p. Input p \<in> set after) \<longleftrightarrow>
          (is_valid_command (extract_command r) \<and> \<not> is_command_for_distro (extract_command r) f)
          \<or> (\<not> is_valid_command (extract_command r) \<and> endswith (strip r) ''?''))"
proof -
  let ?cand = "extract_command r"
  consider
    (accept) "is_valid_command ?cand" "is_command_for_distro ?cand f"
    | (mismatch) "is_valid_command ?cand" "\<not> is_command_for_distro ?cand f"
    | (question) "\<not> is_valid_command ?cand" "endswith (strip r) ''?''"
    | (unusable) "\<not> is_valid_command ?cand" "\<not> endswith (strip r) ''?''"
    by blast
  then show ?thesis
  proof cases
    case accept
    then have "?cand \<noteq> []" using is_valid_command_nonempty by blast
    then have "events (handle_response f r d) = events d @ []"
      using accept by (simp add: handle_response_def Let_def)
    then show ?thesis using accept by (intro exI [of _ "[]"]) simp
  next
    case mismatch
    then have "?cand \<noteq> []" using is_valid_command_nonempty by blast
    then have "handle_response f r d = clarify_mismatch f r ?cand d"
      using mismatch by (simp add: handle_response_def Let_def)
    then obtain tail where "events (handle_response f r d) =
        events d @ [Print msg_mismatch, Print (msg_received ?cand), Print (msg_expected f),
                    Input clarification_prompt] @ tail"
      using clarify_mismatch_prompts [of f r ?cand d] by auto
    then show ?thesis
      using mismatch
      by (intro exI [of _ "[Print msg_mismatch, Print (msg_received ?cand), Print (msg_expected f),
                    Input clarification_prompt] @ tail"]) auto
  next
    case question
    then have "handle_response f r d = clarify_question r d"
      by (simp add: handle_response_def Let_def)
    then obtain tail where "events (handle_response f r d) =
        events d @ [Print (msg_asks r), Input clarification_prompt] @ tail"
      using clarify_question_prompts [of r d] by auto
    then show ?thesis
      using question
      by (intro exI [of _ "[Print (msg_asks r), Input clarification_prompt] @ tail"]) auto
  next
    case unusable
    then have "events (handle_response f r d) = events d @ [Print msg_invalid]"
      by (simp add: handle_response_def Let_def py_print_fields)
    then show ?thesis
      using unusable by (intro exI [of _ "[Print msg_invalid]"]) simp
  qed
qed

lemma step_prompts:
  assumes "status c = Looping" "iteration c < max_iterations"
  shows "\<exists>after. events (step f c) =
       events c @ [Print msg_querying, Query (build_prompt (conversation_history c) f)] @ after
     \<and> ((\<exists>p. Input p \<in> set after) \<longleftrightarrow>
          (\<exists>r rest. llm_replies c = Some r # rest
             \<and> ((is_valid_command (extract_command r)
                    \<and> \<not> is_command_for_distro (extract_command r) f)
                  \<or> (\<not> is_valid_command (extract_command r) \<and> endswith (strip r) ''?''))))"
proof -
  let ?q = "[Print msg_querying, Query (build_prompt (conversation_history c) f)]"
  consider
    (waiting) "llm_replies c = []"
    | (none) rest where "llm_replies c = None # rest"
    | (empty) rest where "llm_replies c = Some [] # rest"
    | (response) r rest where "llm_replies c = Some r # rest" "r \<noteq> []"
    by (cases "llm_replies c"; cases "hd (llm_replies c)"; cases "the (hd (llm_replies c))") auto
  then show ?thesis
  proof cases
    case waiting
    then have "events (step f c) = events c @ ?q @ []"
      using assms by (simp add: step_def loop_body_def ask_llm_def py_print_def Let_def)
    then show ?thesis using waiting by (intro exI [of _ "[]"]) simp
  next
    case none
    then have "events (step f c) = events c @ ?q @ [Print msg_no_response]"
      using assms by (simp add: step_def loop_body_def ask_llm_def py_print_def Let_def)
    then show ?thesis using none by (intro exI [of _ "[Print msg_no_response]"]) simp
  next
    case empty
    have "\<not> is_valid_command (extract_command [])" "\<not> endswith (strip []) ''?''"
      using valid_candidate_response [of "[]"] question_response [of "[]"] by auto
    moreover have "events (step f c) = events c @ ?q @ [Print msg_no_response]"
      using assms empty by (simp add: step_def loop_body_def ask_llm_def py_print_def Let_def)
    ultimately show ?thesis using empty by (intro exI [of _ "[Print msg_no_response]"]) simp
  next
    case response
    let ?d = "c\<lparr>events := events c @ ?q, llm_replies := rest\<rparr>"
    have "step f c = handle_response f r ?d"
      using assms response by (intro step_response)
    moreover obtain after where "events (handle_response f r ?d) = events ?d @ after"
      "(\<exists>p. Input p \<in> set after) \<longleftrightarrow>
          (is_valid_command (extract_command r) \<and> \<not> is_command_for_distro (extract_command r) f)
          \<or> (\<not> is_valid_command (extract_command r) \<and> endswith (strip r) ''?'')"
      using handle_response_prompts [of f r ?d] by blast
    ultimately show ?thesis
      using response(1) by (intro exI [of _ after]) simp
  qed
qed

section \<open>Facts about running commands\<close>

lemma execute_command_Cons:
  "shell_results w = result # rest \<Longrightarrow>
   execute_command command w =
     (Some (case result of Completed returncode \<Rightarrow> (returncode, None, None)
                         | Raised e \<Rightarrow> (- 1, None, Some e)),
      w\<lparr>events := events w @ [Exec command], shell_results := rest\<rparr>)"
  by (simp add: execute_command_def subprocess_run_def split: run_result.split)

lemma execute_command_Nil:
  "shell_results w = [] \<Longrightarrow>
   execute_command command w = (None, w\<lparr>events := events w @ [Exec command]\<rparr>)"
  by (simp add: execute_command_def subprocess_run_def)

lemma ask_yes_no_Cons:
  "stdin w = line # later \<Longrightarrow>
   ask_yes_no prompt w =
     (Some (lower (strip line) \<in> set confirm_words),
      w\<lparr>events := events w @ [Input prompt], stdin := later\<rparr>)"
  by (simp add: ask_yes_no_def py_input_def)

lemma usermod_not_groupadd:
  assumes "contains (lower cmd) ''usermod''"
  shows "cmd \<noteq> ''sudo groupadd docker''"
proof
  assume "cmd = ''sudo groupadd docker''"
  then have "contains (lower ''sudo groupadd docker'') ''usermod''"
    using assms by simp
  moreover have "\<not> contains (lower ''sudo groupadd docker'') ''usermod''"
    by code_simp
  ultimately show False by simp
qed

section \<open>Facts about reading the stream\<close>







section \<open>Claims about the two predicates\<close>

text \<open>
  C5. Matching is on the lower-cased candidate throughout. A candidate with none of the six
  package-manager keywords is accepted under every family; a candidate with one of them is
  accepted under a recognised family exactly when it has one of that family's own
  keywords, and accepted under every other family. \<open>pacman -S foo\<close> is rejected under
  the Debian-like family and accepted under an unrecognised one.
\<close>

theorem is_command_for_distro_policy:
  "(\<not> (sublist ''apt'' (lower c) \<or> sublist ''apt-get'' (lower c) \<or> sublist ''dpkg'' (lower c)
       \<or> sublist ''pacman'' (lower c) \<or> sublist ''dnf'' (lower c) \<or> sublist ''yum'' (lower c))
     \<longrightarrow> is_command_for_distro c f)
   \<and> (sublist ''apt'' (lower c) \<or> sublist ''apt-get'' (lower c) \<or> sublist ''dpkg'' (lower c)
       \<or> sublist ''pacman'' (lower c) \<or> sublist ''dnf'' (lower c) \<or> sublist ''yum'' (lower c)
     \<longrightarrow>
       (is_command_for_distro c ''Ubuntu/Debian-based'' \<longleftrightarrow>
          sublist ''apt'' (lower c) \<or> sublist ''apt-get'' (lower c) \<or> sublist ''dpkg'' (lower c))
     \<and> (is_command_for_distro c ''Arch-based'' \<longleftrightarrow> sublist ''pacman'' (lower c))
     \<and> (is_command_for_distro c ''Fedora/RHEL-based'' \<longleftrightarrow>
          sublist ''dnf'' (lower c) \<or> sublist ''yum'' (lower c)))
   \<and> (f \<notin> {''Ubuntu/Debian-based'', ''Arch-based'', ''Fedora/RHEL-based''}
     \<longrightarrow> is_command_for_distro c f)
   \<and> \<not> is_command_for_distro ''pacman -S foo'' ''Ubuntu/Debian-based''
   \<and> is_command_for_distro ''pacman -S foo'' ''unknown''"
proof -
  have ex: "expected_pm ''Ubuntu/Debian-based'' = Some [''apt'', ''apt-get'', ''dpkg'']"
    "expected_pm ''Arch-based'' = Some [''pacman'']"
    "expected_pm ''Fedora/RHEL-based'' = Some [''dnf'', ''yum'']"
    by (simp_all add: expected_pm_def)
  have other: "expected_pm f = None"
    if "f \<notin> {''Ubuntu/Debian-based'', ''Arch-based'', ''Fedora/RHEL-based''}"
    using that by (simp add: expected_pm_def)
  have low: "lower ''pacman -S foo'' = ''pacman -s foo''"
    by code_simp
  have p1: "\<not> (sublist ''apt'' (lower c) \<or> sublist ''apt-get'' (lower c)
       \<or> sublist ''dpkg'' (lower c) \<or> sublist ''pacman'' (lower c) \<or> sublist ''dnf'' (lower c)
       \<or> sublist ''yum'' (lower c)) \<longrightarrow> is_command_for_distro c f"
    by (simp add: is_command_for_distro_def pm_keywords_def contains_def)
  have p2: "is_command_for_distro c ''Ubuntu/Debian-based'' \<longleftrightarrow>
          sublist ''apt'' (lower c) \<or> sublist ''apt-get'' (lower c) \<or> sublist ''dpkg'' (lower c)"
    if "sublist ''apt'' (lower c) \<or> sublist ''apt-get'' (lower c) \<or> sublist ''dpkg'' (lower c)
       \<or> sublist ''pacman'' (lower c) \<or> sublist ''dnf'' (lower c) \<or> sublist ''yum'' (lower c)"
    using that by (simp add: is_command_for_distro_def pm_keywords_def contains_def ex Let_def)
  have p3: "is_command_for_distro c ''Arch-based'' \<longleftrightarrow> sublist ''pacman'' (lower c)"
    if "sublist ''apt'' (lower c) \<or> sublist ''apt-get'' (lower c) \<or> sublist ''dpkg'' (lower c)
       \<or> sublist ''pacman'' (lower c) \<or> sublist ''dnf'' (lower c) \<or> sublist ''yum'' (lower c)"
    using that by (simp add: is_command_for_distro_def pm_keywords_def contains_def ex Let_def)
  have p4: "is_command_for_distro c ''Fedora/RHEL-based'' \<longleftrightarrow>
          sublist ''dnf'' (lower c) \<or> sublist ''yum'' (lower c)"
    if "sublist ''apt'' (lower c) \<or> sublist ''apt-get'' (lower c) \<or> sublist ''dpkg'' (lower c)
       \<or> sublist ''pacman'' (lower c) \<or> sublist ''dnf'' (lower c) \<or> sublist ''yum'' (lower c)"
    using that by (simp add: is_command_for_distro_def pm_keywords_def contains_def ex Let_def)
  have p5: "is_command_for_distro c f"
    if "f \<notin> {''Ubuntu/Debian-based'', ''Arch-based'', ''Fedora/RHEL-based''}"
    using other [OF that] by (simp add: is_command_for_distro_def)
  have p6: "\<not> is_command_for_distro ''pacman -S foo'' ''Ubuntu/Debian-based''"
    by (simp add: is_command_for_distro_def pm_keywords_def contains_def ex low Let_def sublist_code(3))
  have p7: "is_command_for_distro ''pacman -S foo'' ''unknown''"
    by (simp add: is_command_for_distro_def expected_pm_def)
  from p1 p2 p3 p4 p5 p6 p7 show ?thesis by blast
qed

theorem is_command_for_distro_policy_witness:
  "sublist ''apt'' (lower ''sudo APT install htop'')
   \<and> is_command_for_distro ''sudo APT install htop'' ''Ubuntu/Debian-based''
   \<and> \<not> is_command_for_distro ''sudo APT install htop'' ''Arch-based''
   \<and> \<not> is_command_for_distro ''sudo APT install htop'' ''Fedora/RHEL-based''
   \<and> is_command_for_distro ''sudo APT install htop'' ''gentoo''"
proof -
  have low: "lower ''sudo APT install htop'' = ''sudo apt install htop''"
    by code_simp
  have a: "sublist ''apt'' (lower ''sudo APT install htop'')"
    unfolding low by (simp add: sublist_code(3))
  have b: "\<not> sublist ''pacman'' (lower ''sudo APT install htop'')"
    "\<not> sublist ''dnf'' (lower ''sudo APT install htop'')"
    "\<not> sublist ''yum'' (lower ''sudo APT install htop'')"
    unfolding low by (simp_all add: sublist_code(3))
  have g: "''gentoo'' \<notin> {''Ubuntu/Debian-based'', ''Arch-based'', ''Fedora/RHEL-based''}"
    by simp
  show ?thesis
    using is_command_for_distro_policy [of "''sudo APT install htop''" "''gentoo''"] a b g
    by blast
qed

text \<open>
  C6. A candidate is what \<open>extract_command\<close> returns: \<open>main\<close> calls \<open>is_valid_command\<close>
  at line 194 only, on that result, which has no whitespace at either end. Every
  candidate that contains a newline character is rejected; and so is every string without
  whitespace at its ends that contains one.
\<close>

theorem is_valid_command_rejects_newline:
  "(CHR 0x0A \<in> set (extract_command r) \<longrightarrow> \<not> is_valid_command (extract_command r))
   \<and> (strip cmd = cmd \<and> CHR 0x0A \<in> set cmd \<longrightarrow> \<not> is_valid_command cmd)"
proof -
  have general: "\<not> is_valid_command c" if "strip c = c" "CHR 0x0A \<in> set c" for c
  proof -
    have "contains (strip c) [CHR 0x0A]"
      using that by (simp add: contains_char)
    then show ?thesis
      by (simp add: is_valid_command_def Let_def)
  qed
  show ?thesis
    using general [of cmd] general [of "extract_command r"] extract_command_stripped [of r]
    by blast
qed

theorem is_valid_command_rejects_newline_witness:
  "extract_command ''Run `ls\<newline>pwd` now'' = ''ls\<newline>pwd''
   \<and> CHR 0x0A \<in> set (extract_command ''Run `ls\<newline>pwd` now'')
   \<and> \<not> is_valid_command (extract_command ''Run `ls\<newline>pwd` now'')"
proof -
  have e: "extract_command ''Run `ls\<newline>pwd` now'' = ''ls\<newline>pwd''"
    by code_simp
  then have n: "CHR 0x0A \<in> set (extract_command ''Run `ls\<newline>pwd` now'')"
    by simp
  show ?thesis
    using is_valid_command_rejects_newline [of "''Run `ls\<newline>pwd` now''" "[]"] e n
    by blast
qed

section \<open>Claims about \<open>extract_command\<close>\<close>

text \<open>
  C9. A span is a backtick, a non-empty interior without a backtick, and a backtick (the
  pattern asks for one character at least, and only so can a triple-backtick block fall
  under the single-backtick rule). When the response has such a span, \<open>extract_command\<close>
  returns the trimmed interior of the one that starts first, whatever the interior holds,
  newlines included. A response whose only backticks are those of one triple-backtick
  block with a non-empty, backtick-free body gives that body trimmed. Whatever is
  returned has no whitespace at either end.
\<close>

theorem extract_command_first_span:
  "(r = pre @ [tick] @ body @ [tick] @ post \<and> body \<noteq> [] \<and> tick \<notin> set body
     \<and> (\<forall>pre' body' post'.
            r = pre' @ [tick] @ body' @ [tick] @ post' \<and> body' \<noteq> [] \<and> tick \<notin> set body'
            \<longrightarrow> length pre \<le> length pre')
     \<longrightarrow> extract_command r = strip body)
   \<and> (tick \<notin> set p \<and> tick \<notin> set q \<and> block \<noteq> [] \<and> tick \<notin> set block
     \<longrightarrow> extract_command (p @ [tick, tick, tick] @ block @ [tick, tick, tick] @ q) = strip block)
   \<and> (extract_command r = []
       \<or> (\<not> isspace (hd (extract_command r)) \<and> \<not> isspace (last (extract_command r))))"
proof (intro conjI impI)
  assume a: "r = pre @ [tick] @ body @ [tick] @ post \<and> body \<noteq> [] \<and> tick \<notin> set body
     \<and> (\<forall>pre' body' post'.
            r = pre' @ [tick] @ body' @ [tick] @ post' \<and> body' \<noteq> [] \<and> tick \<notin> set body'
            \<longrightarrow> length pre \<le> length pre')"
  then have "search_single r = Some body"
    by (intro search_single_first [of r pre body post]) blast+
  then show "extract_command r = strip body"
    by (simp add: extract_command_def)
next
  assume a: "tick \<notin> set p \<and> tick \<notin> set q \<and> block \<noteq> [] \<and> tick \<notin> set block"
  then have "search_single (p @ [tick, tick, tick] @ block @ [tick, tick, tick] @ q) = Some block"
    using search_single_skip [of p] search_single_block [of block q] by simp
  then show "extract_command (p @ [tick, tick, tick] @ block @ [tick, tick, tick] @ q) = strip block"
    by (simp add: extract_command_def)
next
  show "extract_command r = []
       \<or> (\<not> isspace (hd (extract_command r)) \<and> \<not> isspace (last (extract_command r)))"
    using strip_no_outer_space
    by (simp add: extract_command_def split: option.split)
qed

theorem extract_command_first_span_witness:
  "extract_command ''run `ls\<newline>-l ` now `pwd`'' = ''ls\<newline>-l''
   \<and> extract_command ''Try:\<newline>```\<newline>ls -l\<newline>```'' = ''ls -l''"
proof -
  let ?r = "''run `ls\<newline>-l ` now `pwd`''"
  have r: "?r = ''run '' @ [tick] @ ''ls\<newline>-l '' @ [tick] @ '' now `pwd`''"
    by (simp add: tick_def)
  have b: "''ls\<newline>-l '' \<noteq> []" "tick \<notin> set ''ls\<newline>-l ''"
    by (simp_all add: tick_def)
  have m: "\<forall>pre' body' post'.
            ?r = pre' @ [tick] @ body' @ [tick] @ post' \<and> body' \<noteq> [] \<and> tick \<notin> set body'
            \<longrightarrow> length ''run '' \<le> length pre'"
  proof (intro allI impI)
    fix pre' body' post'
    assume h: "?r = pre' @ [tick] @ body' @ [tick] @ post' \<and> body' \<noteq> [] \<and> tick \<notin> set body'"
    show "length ''run '' \<le> length pre'"
    proof (rule ccontr)
      assume "\<not> length ''run '' \<le> length pre'"
      then have lt: "length pre' < 4" by simp
      have "?r ! length pre' = tick" using h by (simp add: nth_append)
      moreover have "\<forall>i<4. ?r ! i \<noteq> tick"
        by (simp add: tick_def less_Suc_eq numeral_eq_Suc)
      ultimately show False using lt by blast
    qed
  qed
  have s1: "strip ''ls\<newline>-l '' = ''ls\<newline>-l''" by code_simp
  have one: "extract_command ?r = ''ls\<newline>-l''"
    using extract_command_first_span [of ?r "''run ''" "''ls\<newline>-l ''" "'' now `pwd`''"]
      r b m s1 by presburger
  have t: "''Try:\<newline>```\<newline>ls -l\<newline>```''
      = ''Try:\<newline>'' @ [tick, tick, tick] @ ''\<newline>ls -l\<newline>'' @ [tick, tick, tick] @ []"
    by (simp add: tick_def)
  have c: "tick \<notin> set ''Try:\<newline>''" "tick \<notin> set []" "''\<newline>ls -l\<newline>'' \<noteq> []"
    "tick \<notin> set ''\<newline>ls -l\<newline>''"
    by (simp_all add: tick_def)
  have s2: "strip ''\<newline>ls -l\<newline>'' = ''ls -l''" by code_simp
  have two: "extract_command ''Try:\<newline>```\<newline>ls -l\<newline>```'' = ''ls -l''"
    using extract_command_first_span
      [of "[]" "[]" "[]" "[]" "''Try:\<newline>''" "[]" "''\<newline>ls -l\<newline>''"]
      t c s2 by presburger
  show ?thesis using one two by simp
qed

section \<open>Claims about the request loop\<close>




text \<open>
  C2. The counter starts at 0. A pass of the loop leaves it as it is or adds exactly 1,
  and adds 1 only when it has read a clarification that is not empty and appended it to
  the history; along a request it never decreases and never exceeds 5. Once it is 5 the
  loop ends without another query to the model (the log of events and the replies not
  yet read stay as they are), with no final command.
\<close>

theorem iteration_bounded:
  "iteration (start instruction typed replies) = 0
   \<and> iteration c \<le> iteration (step family c)
   \<and> iteration (step family c) \<le> iteration c + 1
   \<and> (iteration (step family c) \<noteq> iteration c \<longrightarrow>
        iteration (step family c) = iteration c + 1
        \<and> (\<exists>line rest. stdin c = line # rest \<and> strip line \<noteq> []
              \<and> stdin (step family c) = rest
              \<and> (\<exists>label r. conversation_history (step family c) =
                    conversation_history c @ [label @ r, ''User: '' @ strip line])))
   \<and> iteration ((step family ^^ m) (start instruction typed replies))
        \<le> iteration ((step family ^^ (m + n)) (start instruction typed replies))
   \<and> iteration ((step family ^^ n) (start instruction typed replies)) \<le> 5
   \<and> (iteration ((step family ^^ n) (start instruction typed replies)) = 5 \<longrightarrow>
        events (request_loop family ((step family ^^ n) (start instruction typed replies)))
          = events ((step family ^^ n) (start instruction typed replies))
        \<and> llm_replies (request_loop family ((step family ^^ n) (start instruction typed replies)))
          = llm_replies ((step family ^^ n) (start instruction typed replies))
        \<and> status (request_loop family ((step family ^^ n) (start instruction typed replies))) = Left
        \<and> final_command (request_loop family ((step family ^^ n) (start instruction typed replies)))
          = None)"
proof -
  let ?s = "start instruction typed replies"
  let ?c = "(step family ^^ n) ?s"
  have a: "iteration ?s = 0" by (simp add: start_def)
  have b: "iteration c \<le> iteration (step family c)" "iteration (step family c) \<le> iteration c + 1"
    using step_summary [of family c] by auto
  have d: "iteration (step family c) = iteration c + 1
        \<and> (\<exists>line rest. stdin c = line # rest \<and> strip line \<noteq> []
              \<and> stdin (step family c) = rest
              \<and> (\<exists>label r. conversation_history (step family c) =
                    conversation_history c @ [label @ r, ''User: '' @ strip line]))"
    if "iteration (step family c) \<noteq> iteration c"
    using step_summary [of family c] that by blast
  have "(step family ^^ (m + n)) ?s = (step family ^^ n) ((step family ^^ m) ?s)"
    by (subst add.commute) (simp add: funpow_add)
  then have e: "iteration ((step family ^^ m) ?s) \<le> iteration ((step family ^^ (m + n)) ?s)"
    using funpow_iteration_mono [where c = "(step family ^^ m) ?s" and f = family and n = n] by simp
  have inv: "loop_inv ?c"
    using loop_inv_start by (rule loop_inv_funpow)
  then have f: "iteration ?c \<le> 5" by (simp add: loop_inv_def)
  have g: "events (request_loop family ?c) = events ?c
        \<and> llm_replies (request_loop family ?c) = llm_replies ?c
        \<and> status (request_loop family ?c) = Left
        \<and> final_command (request_loop family ?c) = None"
    if five: "iteration ?c = 5"
  proof -
    have "final_command ?c = None" "status ?c = Looping \<or> status ?c = Left"
      using inv five by (simp_all add: loop_inv_def)
    moreover from this(2) have "request_loop family ?c = ?c\<lparr>status := Left\<rparr>"
      using five by (intro request_loop_exhausted)
    ultimately show ?thesis by simp
  qed
  show ?thesis using a b d e f g by blast
qed


theorem iteration_bounded_witness:
  "iteration ((step ''Arch-based'' ^^ 5)
      (start ''free space'' [''sda'', ''sda'', ''sda'', ''sda'', ''sda'', ''sda'']
         [Some ''Which disk?'', Some ''Which disk?'', Some ''Which disk?'', Some ''Which disk?'',
          Some ''Which disk?'', Some ''Which disk?'', Some ''Which disk?''])) = 5
   \<and> llm_replies (request_loop ''Arch-based'' ((step ''Arch-based'' ^^ 5)
      (start ''free space'' [''sda'', ''sda'', ''sda'', ''sda'', ''sda'', ''sda'']
         [Some ''Which disk?'', Some ''Which disk?'', Some ''Which disk?'', Some ''Which disk?'',
          Some ''Which disk?'', Some ''Which disk?'', Some ''Which disk?''])))
      = [Some ''Which disk?'', Some ''Which disk?'']
   \<and> final_command (request_loop ''Arch-based'' ((step ''Arch-based'' ^^ 5)
      (start ''free space'' [''sda'', ''sda'', ''sda'', ''sda'', ''sda'', ''sda'']
         [Some ''Which disk?'', Some ''Which disk?'', Some ''Which disk?'', Some ''Which disk?'',
          Some ''Which disk?'', Some ''Which disk?'', Some ''Which disk?''])))
      = None"
proof -
  let ?s = "start ''free space'' [''sda'', ''sda'', ''sda'', ''sda'', ''sda'', ''sda'']
         [Some ''Which disk?'', Some ''Which disk?'', Some ''Which disk?'', Some ''Which disk?'',
          Some ''Which disk?'', Some ''Which disk?'', Some ''Which disk?'']"
  let ?c = "(step ''Arch-based'' ^^ 5) ?s"
  have q: "extract_command ''Which disk?'' = []" "endswith (strip ''Which disk?'') ''?''"
    by code_simp+
  have a: "strip ''sda'' = ''sda''" "lower ''sda'' \<notin> set cancel_words"
    by code_simp+
  have run: "iteration ?c = 5 \<and> llm_replies ?c = [Some ''Which disk?'', Some ''Which disk?'']"
    by (simp add: numeral_eq_Suc start_def step_def loop_body_def ask_llm_def
        handle_response_def clarify_question_def py_input_def py_print_def Let_def
        max_iterations_def q a)
  show ?thesis
    using iteration_bounded [where family = "''Arch-based''" and instruction = "''free space''"
        and typed = "[''sda'', ''sda'', ''sda'', ''sda'', ''sda'', ''sda'']"
        and replies = "[Some ''Which disk?'', Some ''Which disk?'', Some ''Which disk?'',
          Some ''Which disk?'', Some ''Which disk?'', Some ''Which disk?'', Some ''Which disk?'']"
        and n = 5] run
    by simp
qed

text \<open>
  C3, as stated: after an empty clarification the user is asked again, with no new query
  to the model in between. The \<open>continue\<close> of lines 209 and 228 goes back to the top of
  the loop, which queries the model again: here the policy turns the first response down,
  the user enters an empty line, the model is queried a second time, and its second
  response is accepted with no second prompt to the user.
\<close>

theorem empty_clarification_without_reprompt:
  "events (request_loop ''Ubuntu/Debian-based''
     (start ''install htop'' [''''] [Some ''`sudo pacman -S htop`'', Some ''`sudo apt install htop`'']))
   = [Print msg_querying, Query (build_prompt [''User: install htop''] ''Ubuntu/Debian-based''),
      Print msg_mismatch, Print (msg_received ''sudo pacman -S htop''),
      Print (msg_expected ''Ubuntu/Debian-based''), Input clarification_prompt,
      Print msg_specify,
      Print msg_querying, Query (build_prompt [''User: install htop''] ''Ubuntu/Debian-based'')]
   \<and> final_command (request_loop ''Ubuntu/Debian-based''
     (start ''install htop'' [''''] [Some ''`sudo pacman -S htop`'', Some ''`sudo apt install htop`'']))
   = Some ''sudo apt install htop''"
proof -
  have e: "extract_command ''`sudo pacman -S htop`'' = ''sudo pacman -S htop''"
    "extract_command ''`sudo apt install htop`'' = ''sudo apt install htop''"
    by code_simp+
  have v: "is_valid_command ''sudo pacman -S htop''" "is_valid_command ''sudo apt install htop''"
    by code_simp+
  have p: "\<not> is_command_for_distro ''sudo pacman -S htop'' ''Ubuntu/Debian-based''"
    "is_command_for_distro ''sudo apt install htop'' ''Ubuntu/Debian-based''"
    by code_simp+
  have s: "strip [] = []" "lower [] \<notin> set cancel_words"
    by code_simp+
  show ?thesis
    by (simp add: request_loop.simps start_def step_def loop_body_def ask_llm_def
        handle_response_def clarify_mismatch_def py_input_def py_print_def Let_def
        max_iterations_def e v p s)
qed

text \<open>
  C3, amended: in both clarification states an empty clarification uses up no iteration
  and leaves the history and the final command as they are, and control goes back to the
  loop test: the next thing the loop does is to query the model again, with the same
  prompt. In that next pass the user is asked again if and only if there is a new
  response and it leads to a clarification state again.
\<close>

theorem empty_clarification_requeries:
  assumes "status c = Looping" and "iteration c < max_iterations"
    and "llm_replies c = Some r # rest"
    and "stdin c = line # later" and "strip line = []"
    and "(is_valid_command (extract_command r)
            \<and> \<not> is_command_for_distro (extract_command r) family)
         \<or> (\<not> is_valid_command (extract_command r) \<and> endswith (strip r) ''?'')"
  shows "iteration (step family c) = iteration c
     \<and> conversation_history (step family c) = conversation_history c
     \<and> final_command (step family c) = final_command c
     \<and> status (step family c) = Looping
     \<and> stdin (step family c) = later
     \<and> llm_replies (step family c) = rest
     \<and> (\<exists>shown. events (step family c) =
           events c @ [Print msg_querying, Query (build_prompt (conversation_history c) family)]
             @ shown @ [Input clarification_prompt,
                        Print (if is_valid_command (extract_command r) then msg_specify
                               else msg_details)])
     \<and> (\<exists>after. events (step family (step family c)) =
           events (step family c)
             @ [Print msg_querying, Query (build_prompt (conversation_history c) family)]
             @ after
           \<and> ((\<exists>p. Input p \<in> set after) \<longleftrightarrow>
                (\<exists>r' rest'. rest = Some r' # rest'
                   \<and> ((is_valid_command (extract_command r')
                          \<and> \<not> is_command_for_distro (extract_command r') family)
                        \<or> (\<not> is_valid_command (extract_command r')
                          \<and> endswith (strip r') ''?'')))))"
proof -
  let ?d = "c\<lparr>events := events c @ [Print msg_querying,
                             Query (build_prompt (conversation_history c) family)],
        llm_replies := rest\<rparr>"
  let ?cand = "extract_command r"
  have "r \<noteq> []"
    using assms(6) valid_candidate_response question_response by blast
  with assms(1-3) have step: "step family c = handle_response family r ?d"
    by (rule step_response)
  have blank: "lower (strip line) \<notin> set cancel_words"
    using assms(5) lower_empty_not_cancel by simp
  have first: "iteration (step family c) = iteration c
     \<and> conversation_history (step family c) = conversation_history c
     \<and> final_command (step family c) = final_command c
     \<and> status (step family c) = Looping
     \<and> stdin (step family c) = later
     \<and> llm_replies (step family c) = rest
     \<and> (\<exists>shown. events (step family c) =
           events c @ [Print msg_querying, Query (build_prompt (conversation_history c) family)]
             @ shown @ [Input clarification_prompt,
                        Print (if is_valid_command (extract_command r) then msg_specify
                               else msg_details)])"
    using assms(6)
  proof
    assume m: "is_valid_command ?cand \<and> \<not> is_command_for_distro ?cand family"
    then have "?cand \<noteq> []" using is_valid_command_nonempty by blast
    then have "handle_response family r ?d = clarify_mismatch family r ?cand ?d"
      using m by (simp add: handle_response_def Let_def)
    then have "step family c =
        ?d\<lparr>events := (events ?d @ [Print msg_mismatch, Print (msg_received ?cand),
                   Print (msg_expected family), Input clarification_prompt]) @ [Print msg_specify],
           stdin := later\<rparr>"
      using step assms(4,5) blank by (simp add: clarify_mismatch_flat)
    then show ?thesis using m assms(1) by simp
  next
    assume q: "\<not> is_valid_command ?cand \<and> endswith (strip r) ''?''"
    then have "handle_response family r ?d = clarify_question r ?d"
      by (simp add: handle_response_def Let_def)
    then have "step family c =
        ?d\<lparr>events := (events ?d @ [Print (msg_asks r), Input clarification_prompt])
                   @ [Print msg_details],
           stdin := later\<rparr>"
      using step assms(4,5) blank by (simp add: clarify_question_flat)
    then show ?thesis using q assms(1) by simp
  qed
  then have next_pass: "status (step family c) = Looping"
    "iteration (step family c) < max_iterations"
    and same: "conversation_history (step family c) = conversation_history c"
    "llm_replies (step family c) = rest"
    using assms(2) by simp_all
  have "\<exists>after. events (step family (step family c)) =
           events (step family c)
             @ [Print msg_querying, Query (build_prompt (conversation_history c) family)]
             @ after
           \<and> ((\<exists>p. Input p \<in> set after) \<longleftrightarrow>
                (\<exists>r' rest'. rest = Some r' # rest'
                   \<and> ((is_valid_command (extract_command r')
                          \<and> \<not> is_command_for_distro (extract_command r') family)
                        \<or> (\<not> is_valid_command (extract_command r')
                          \<and> endswith (strip r') ''?''))))"
    using step_prompts [OF next_pass, of family] unfolding same .
  then show ?thesis using first by blast
qed

theorem empty_clarification_requeries_witness:
  "iteration (step ''Ubuntu/Debian-based''
     (start ''install htop'' [''''] [Some ''`sudo pacman -S htop`'', Some ''`sudo apt install htop`''])) = 0
   \<and> status (step ''Ubuntu/Debian-based''
     (start ''install htop'' [''''] [Some ''`sudo pacman -S htop`'', Some ''`sudo apt install htop`''])) = Looping
   \<and> conversation_history (step ''Ubuntu/Debian-based''
     (start ''install htop'' [''''] [Some ''`sudo pacman -S htop`'', Some ''`sudo apt install htop`'']))
     = [''User: install htop'']
   \<and> llm_replies (step ''Ubuntu/Debian-based''
     (start ''install htop'' [''''] [Some ''`sudo pacman -S htop`'', Some ''`sudo apt install htop`'']))
     = [Some ''`sudo apt install htop`'']"
proof -
  let ?c = "start ''install htop'' [''''] [Some ''`sudo pacman -S htop`'', Some ''`sudo apt install htop`'']"
  have c: "status ?c = Looping" "iteration ?c < max_iterations" "iteration ?c = 0"
    "llm_replies ?c = Some ''`sudo pacman -S htop`'' # [Some ''`sudo apt install htop`'']"
    "stdin ?c = [] # []" "conversation_history ?c = [''User: install htop'']"
    by (simp_all add: start_def max_iterations_def)
  have r: "strip [] = []" by (simp add: strip_def lstrip_def rstrip_def)
  have m: "(is_valid_command (extract_command ''`sudo pacman -S htop`'')
            \<and> \<not> is_command_for_distro (extract_command ''`sudo pacman -S htop`'') ''Ubuntu/Debian-based'')
         \<or> (\<not> is_valid_command (extract_command ''`sudo pacman -S htop`'')
            \<and> endswith (strip ''`sudo pacman -S htop`'') ''?'')"
    by code_simp
  show ?thesis
    using empty_clarification_requeries [OF c(1,2,4) c(5) r m] c(3,6) by simp
qed

text \<open>
  C4. A response whose candidate passes \<open>is_valid_command\<close> is
  handled as a command attempt, whether or not it ends with a question mark: when the
  policy approves, the candidate becomes the final command and the loop is left; when it
  does not, the mismatch is shown and the user is asked to clarify, the history growing
  by a mismatch entry at most. In neither case is the response shown as a question of
  the model.
\<close>

theorem valid_candidate_is_command_attempt:
  assumes "status c = Looping" and "iteration c < max_iterations"
    and "llm_replies c = Some r # rest"
    and "is_valid_command (extract_command r)"
  shows "(is_command_for_distro (extract_command r) family \<longrightarrow>
            step family c =
              c\<lparr>events := events c @
                    [Print msg_querying, Query (build_prompt (conversation_history c) family)],
                llm_replies := rest,
                final_command := Some (extract_command r),
                conversation_history := conversation_history c @ [''Assistant: '' @ r],
                status := Left\<rparr>)
     \<and> (\<not> is_command_for_distro (extract_command r) family \<longrightarrow>
            (\<exists>tail. events (step family c) =
               events c @
                 [Print msg_querying, Query (build_prompt (conversation_history c) family),
                  Print msg_mismatch, Print (msg_received (extract_command r)),
                  Print (msg_expected family), Input clarification_prompt] @ tail)
            \<and> (conversation_history (step family c) = conversation_history c
                 \<or> (\<exists>clarification. conversation_history (step family c) =
                       conversation_history c @
                         [''Assistant (mismatch): '' @ r, ''User: '' @ clarification]))
            \<and> final_command (step family c) \<in> {None, final_command c})
     \<and> Print (msg_asks r) \<notin> set (drop (length (events c)) (events (step family c)))"
proof -
  let ?d = "c\<lparr>events := events c @ [Print msg_querying,
                             Query (build_prompt (conversation_history c) family)],
        llm_replies := rest\<rparr>"
  let ?cand = "extract_command r"
  have "r \<noteq> []"
    using assms(4) by (rule valid_candidate_response)
  with assms(1-3) have step: "step family c = handle_response family r ?d"
    by (rule step_response)
  have cand: "?cand \<noteq> []"
    using assms(4) by (rule is_valid_command_nonempty)
  show ?thesis
  proof (cases "is_command_for_distro ?cand family")
    case True
    then have "step family c = ?d\<lparr>final_command := Some ?cand,
        conversation_history := conversation_history ?d @ [''Assistant: '' @ r],
        status := Left\<rparr>"
      using step cand assms(4) by (simp add: handle_response_def Let_def)
    then show ?thesis using True by (simp add: msg_asks_distinct)
  next
    case False
    then have "step family c = clarify_mismatch family r ?cand ?d"
      using step cand assms(4) by (simp add: handle_response_def Let_def)
    then show ?thesis
      using False
      by (simp add: clarify_mismatch_flat msg_asks_distinct split: list.split)
  qed
qed

theorem valid_candidate_is_command_attempt_witness:
  "endswith (strip ''Run `ls -la`?'') ''?''
   \<and> final_command (step ''Arch-based'' (start ''list files'' [] [Some ''Run `ls -la`?'']))
       = Some ''ls -la''
   \<and> status (step ''Arch-based'' (start ''list files'' [] [Some ''Run `ls -la`?''])) = Left
   \<and> stdin (step ''Arch-based'' (start ''list files'' [] [Some ''Run `ls -la`?''])) = []"
proof -
  let ?c = "start ''list files'' [] [Some ''Run `ls -la`?'']"
  have c: "status ?c = Looping" "iteration ?c < max_iterations"
    "llm_replies ?c = Some ''Run `ls -la`?'' # []" "stdin ?c = []"
    by (simp_all add: start_def max_iterations_def)
  have e: "extract_command ''Run `ls -la`?'' = ''ls -la''" by code_simp
  have v: "is_valid_command (extract_command ''Run `ls -la`?'')" by code_simp
  have p: "is_command_for_distro (extract_command ''Run `ls -la`?'') ''Arch-based''" by code_simp
  have q: "endswith (strip ''Run `ls -la`?'') ''?''" by code_simp
  show ?thesis
    using valid_candidate_is_command_attempt [OF c(1,2,3) v, of "''Arch-based''"] p q e c(4)
    by simp
qed

section \<open>Claims about running the final command\<close>

text \<open>
  C10. Whatever the command, \<open>execute_command\<close> comes back with a triple and raises
  nothing: when the shell ran, the triple holds its return code and no error text; when
  starting it raised an exception, the triple holds -1 and the text of the exception.
\<close>

theorem execute_command_total:
  "(shell_results w = Completed returncode # rest \<longrightarrow>
      execute_command command w =
        (Some (returncode, None, None),
         w\<lparr>events := events w @ [Exec command], shell_results := rest\<rparr>))
   \<and> (shell_results w = Raised e # rest \<longrightarrow>
      execute_command command w =
        (Some (- 1, None, Some e),
         w\<lparr>events := events w @ [Exec command], shell_results := rest\<rparr>))
   \<and> (shell_results w \<noteq> [] \<longrightarrow>
      (\<exists>code err. fst (execute_command command w) = Some (code, None, err)))"
proof (intro conjI impI)
  assume "shell_results w = Completed returncode # rest"
  then show "execute_command command w =
        (Some (returncode, None, None),
         w\<lparr>events := events w @ [Exec command], shell_results := rest\<rparr>)"
    by (simp add: execute_command_Cons)
next
  assume "shell_results w = Raised e # rest"
  then show "execute_command command w =
        (Some (- 1, None, Some e),
         w\<lparr>events := events w @ [Exec command], shell_results := rest\<rparr>)"
    by (simp add: execute_command_Cons)
next
  assume "shell_results w \<noteq> []"
  then obtain result others where "shell_results w = result # others"
    by (cases "shell_results w") auto
  then show "\<exists>code err. fst (execute_command command w) = Some (code, None, err)"
    by (cases result) (simp_all add: execute_command_Cons)
qed

theorem execute_command_total_witness:
  "fst (execute_command ''ls''
      \<lparr>events = [], stdin = [], llm_replies = [], shell_results = [Completed 2]\<rparr>)
     = Some (2, None, None)
   \<and> fst (execute_command ''ls''
      \<lparr>events = [], stdin = [], llm_replies = [],
       shell_results = [Raised ''embedded null byte'']\<rparr>)
     = Some (- 1, None, Some ''embedded null byte'')"
  using execute_command_total
    [of "\<lparr>events = [], stdin = [], llm_replies = [], shell_results = [Completed 2]\<rparr>"
      2 "[]" "''ls''"]
    execute_command_total
    [of "\<lparr>events = [], stdin = [], llm_replies = [],
         shell_results = [Raised ''embedded null byte'']\<rparr>"
      _ "[]" "''ls''" "''embedded null byte''"]
  by simp


text \<open>
  C7. The final command has come back with a return code other than 0 and has both
  \<open>usermod\<close> and \<open>docker\<close> in its lower-cased text, and the user is asked about the
  docker group. If the user agrees and \<open>sudo groupadd docker\<close> ends with 0, the final
  command is run once more, and nothing follows that second run but at most one printed
  line: no question, no further command. If the user agrees and creating the group
  fails, or if the user declines, the final command is not run again.
\<close>

theorem docker_group_recovery:
  assumes "fst (execute_command cmd w) = Some (retcode, out, err)" and "retcode \<noteq> 0"
    and "contains (lower cmd) ''usermod''" and "contains (lower cmd) ''docker''"
    and "stdin w = line # later"
  shows "(lower (strip line) \<in> set confirm_words
          \<and> (\<exists>rest. tl (shell_results w) = Completed 0 # rest) \<longrightarrow>
            (\<exists>report. events (snd (execute_and_recover cmd w)) =
               events w @ [Exec cmd, Input prompt_create_group, Exec ''sudo groupadd docker'',
                           Print msg_group_created, Exec cmd] @ map Print report
               \<and> length report \<le> 1)
            \<and> count_list (drop (length (events w)) (events (snd (execute_and_recover cmd w))))
                 (Exec cmd) = 2
            \<and> stdin (snd (execute_and_recover cmd w)) = later)
     \<and> (lower (strip line) \<in> set confirm_words
          \<and> (\<exists>failure rest. tl (shell_results w) = failure # rest \<and> failure \<noteq> Completed 0) \<longrightarrow>
            events (snd (execute_and_recover cmd w)) =
               events w @ [Exec cmd, Input prompt_create_group, Exec ''sudo groupadd docker'',
                           Print msg_group_failed]
            \<and> count_list (drop (length (events w)) (events (snd (execute_and_recover cmd w))))
                 (Exec cmd) = 1
            \<and> fst (execute_and_recover cmd w) = Done)
     \<and> (lower (strip line) \<notin> set confirm_words \<longrightarrow>
            events (snd (execute_and_recover cmd w)) =
               events w @ [Exec cmd, Input prompt_create_group, Print msg_group_aborted]
            \<and> count_list (drop (length (events w)) (events (snd (execute_and_recover cmd w))))
                 (Exec cmd) = 1
            \<and> fst (execute_and_recover cmd w) = Done)"
proof -
  obtain first others where sh: "shell_results w = first # others"
    using assms(1) by (cases "shell_results w") (auto simp: execute_command_Nil)
  let ?w1 = "w\<lparr>events := events w @ [Exec cmd], shell_results := others\<rparr>"
  let ?w2 = "?w1\<lparr>events := events ?w1 @ [Input prompt_create_group], stdin := later\<rparr>"
  have run1: "execute_command cmd w = (Some (retcode, out, err), ?w1)"
    using assms(1) execute_command_Cons [OF sh, of cmd] by simp
  have ask: "ask_yes_no prompt_create_group ?w1 =
      (Some (lower (strip line) \<in> set confirm_words), ?w2)"
    using assms(5) by (simp add: ask_yes_no_Cons)
  have other: "Exec ''sudo groupadd docker'' \<noteq> Exec cmd"
    using usermod_not_groupadd [OF assms(3)] by simp
  have main: "execute_and_recover cmd w =
      (if lower (strip line) \<in> set confirm_words then create_group_and_rerun cmd ?w2
       else (Done, py_print msg_group_aborted ?w2))"
    using assms(2,3,4) by (simp add: execute_and_recover_def run1 ask)
  have accepted: "(\<exists>report. events (snd (execute_and_recover cmd w)) =
               events w @ [Exec cmd, Input prompt_create_group, Exec ''sudo groupadd docker'',
                           Print msg_group_created, Exec cmd] @ map Print report
               \<and> length report \<le> 1)
            \<and> count_list (drop (length (events w)) (events (snd (execute_and_recover cmd w))))
                 (Exec cmd) = 2
            \<and> stdin (snd (execute_and_recover cmd w)) = later"
    if yes: "lower (strip line) \<in> set confirm_words"
      and ok: "tl (shell_results w) = Completed 0 # rest" for rest
  proof -
    let ?w3 = "?w2\<lparr>events := events ?w2 @ [Exec ''sudo groupadd docker''], shell_results := rest\<rparr>"
    let ?w4 = "py_print msg_group_created ?w3"
    let ?shown = "events w @ [Exec cmd, Input prompt_create_group, Exec ''sudo groupadd docker'',
                           Print msg_group_created, Exec cmd]"
    have o: "others = Completed 0 # rest" using ok sh by simp
    then have "execute_command ''sudo groupadd docker'' ?w2 = (Some (0, None, None), ?w3)"
      by (simp add: execute_command_Cons)
    then have rerun: "execute_and_recover cmd w =
        (case execute_command cmd ?w4 of
           (None, w5) \<Rightarrow> (Hung, w5)
         | (Some (code, _, _), w5) \<Rightarrow>
             if code \<noteq> 0 then (Done, py_print (msg_after_group code) w5)
             else (Done, py_print msg_success_after_group w5))"
      using main yes by (simp add: create_group_and_rerun_def)
    have "\<exists>report. events (snd (execute_and_recover cmd w)) = ?shown @ map Print report
        \<and> length report \<le> 1 \<and> stdin (snd (execute_and_recover cmd w)) = later"
    proof (cases rest)
      case Nil
      then have "execute_command cmd ?w4 = (None, ?w4\<lparr>events := events ?w4 @ [Exec cmd]\<rparr>)"
        by (simp add: execute_command_Nil py_print_def)
      then have "events (snd (execute_and_recover cmd w)) = ?shown @ map Print []
          \<and> stdin (snd (execute_and_recover cmd w)) = later"
        using rerun by (simp add: py_print_def)
      then show ?thesis by (intro exI [of _ "[]"]) simp
    next
      case (Cons again after)
      let ?w5 = "?w4\<lparr>events := events ?w4 @ [Exec cmd], shell_results := after\<rparr>"
      obtain code a b where "execute_command cmd ?w4 = (Some (code, a, b), ?w5)"
        using Cons by (cases again) (simp_all add: execute_command_Cons py_print_def)
      then have "events (snd (execute_and_recover cmd w)) =
            ?shown @ map Print [if code \<noteq> 0 then msg_after_group code
                               else msg_success_after_group]
          \<and> stdin (snd (execute_and_recover cmd w)) = later"
        using rerun by (simp add: py_print_def)
      then show ?thesis
        by (intro exI [of _ "[if code \<noteq> 0 then msg_after_group code
                               else msg_success_after_group]"]) simp
    qed
    then obtain report where r: "events (snd (execute_and_recover cmd w)) = ?shown @ map Print report"
      "length report \<le> 1" "stdin (snd (execute_and_recover cmd w)) = later"
      by blast
    have "count_list (map Print report) (Exec cmd) = 0"
      by (induction report) simp_all
    then have "count_list (drop (length (events w)) (events (snd (execute_and_recover cmd w))))
        (Exec cmd) = 2"
      using r(1) other by simp
    then show ?thesis using r by auto
  qed
  have failed: "events (snd (execute_and_recover cmd w)) =
               events w @ [Exec cmd, Input prompt_create_group, Exec ''sudo groupadd docker'',
                           Print msg_group_failed]
            \<and> count_list (drop (length (events w)) (events (snd (execute_and_recover cmd w))))
                 (Exec cmd) = 1
            \<and> fst (execute_and_recover cmd w) = Done"
    if yes: "lower (strip line) \<in> set confirm_words"
      and bad: "tl (shell_results w) = failure # rest" "failure \<noteq> Completed 0" for failure rest
  proof -
    let ?w3 = "?w2\<lparr>events := events ?w2 @ [Exec ''sudo groupadd docker''], shell_results := rest\<rparr>"
    have o: "others = failure # rest" using bad(1) sh by simp
    obtain code a b where "execute_command ''sudo groupadd docker'' ?w2 = (Some (code, a, b), ?w3)"
      "code \<noteq> 0"
      using o bad(2) by (cases failure) (simp_all add: execute_command_Cons)
    then have "execute_and_recover cmd w = (Done, py_print msg_group_failed ?w3)"
      using main yes by (simp add: create_group_and_rerun_def)
    then show ?thesis using other by (simp add: py_print_def)
  qed
  have declined: "events (snd (execute_and_recover cmd w)) =
               events w @ [Exec cmd, Input prompt_create_group, Print msg_group_aborted]
            \<and> count_list (drop (length (events w)) (events (snd (execute_and_recover cmd w))))
                 (Exec cmd) = 1
            \<and> fst (execute_and_recover cmd w) = Done"
    if "lower (strip line) \<notin> set confirm_words"
    using main that by (simp add: py_print_def)
  show ?thesis using accepted failed declined by blast
qed

theorem docker_group_recovery_witness:
  "events (snd (execute_and_recover ''sudo usermod -aG docker bob''
      \<lparr>events = [], stdin = [''Y''], llm_replies = [],
       shell_results = [Completed 6, Completed 0, Completed 6]\<rparr>))
   = [Exec ''sudo usermod -aG docker bob'', Input prompt_create_group,
      Exec ''sudo groupadd docker'', Print msg_group_created,
      Exec ''sudo usermod -aG docker bob'', Print (msg_after_group 6)]
   \<and> stdin (snd (execute_and_recover ''sudo usermod -aG docker bob''
      \<lparr>events = [], stdin = [''Y''], llm_replies = [],
       shell_results = [Completed 6, Completed 0, Completed 6]\<rparr>)) = []
   \<and> count_list (events (snd (execute_and_recover ''sudo usermod -aG docker bob''
      \<lparr>events = [], stdin = [''Y''], llm_replies = [],
       shell_results = [Completed 6, Completed 0, Completed 6]\<rparr>)))
      (Exec ''sudo usermod -aG docker bob'') = 2
   \<and> events (snd (execute_and_recover ''sudo usermod -aG docker bob''
      \<lparr>events = [], stdin = [''n''], llm_replies = [],
       shell_results = [Completed 6, Completed 0, Completed 6]\<rparr>))
   = [Exec ''sudo usermod -aG docker bob'', Input prompt_create_group, Print msg_group_aborted]"
proof -
  let ?cmd = "''sudo usermod -aG docker bob''"
  let ?w = "\<lparr>events = [], stdin = [''Y''], llm_replies = [],
       shell_results = [Completed 6, Completed 0, Completed 6]\<rparr>"
  let ?v = "\<lparr>events = [], stdin = [''n''], llm_replies = [],
       shell_results = [Completed 6, Completed 0, Completed 6]\<rparr>"
  have k: "contains (lower ?cmd) ''usermod''" "contains (lower ?cmd) ''docker''"
    by code_simp+
  have y: "lower (strip ''Y'') \<in> set confirm_words" "lower (strip ''n'') \<notin> set confirm_words"
    by code_simp+
  have run: "fst (execute_command ?cmd ?w) = Some (6, None, None)"
    "fst (execute_command ?cmd ?v) = Some (6, None, None)"
    by (simp_all add: execute_command_Cons)
  have six: "(6::int) \<noteq> 0" by simp
  have yes: "events (snd (execute_and_recover ?cmd ?w)) =
      [Exec ?cmd, Input prompt_create_group, Exec ''sudo groupadd docker'',
       Print msg_group_created, Exec ?cmd, Print (msg_after_group 6)]"
    by (simp add: execute_and_recover_def create_group_and_rerun_def execute_command_Cons
        ask_yes_no_Cons py_print_def k y)
  have a: "count_list (drop (length (events ?w)) (events (snd (execute_and_recover ?cmd ?w))))
        (Exec ?cmd) = 2 \<and> stdin (snd (execute_and_recover ?cmd ?w)) = []"
    using docker_group_recovery [OF run(1) six k, of "''Y''" "[]"] y(1) by simp
  have b: "events (snd (execute_and_recover ?cmd ?v)) =
      [Exec ?cmd, Input prompt_create_group, Print msg_group_aborted]"
    using docker_group_recovery [OF run(2) six k, of "''n''" "[]"] y(2) by simp
  show ?thesis using yes a b by simp
qed

section \<open>Claims about reading the stream\<close>




end
